theory Spec2Isabelle
  imports Main "HOL-Library.Word"
begin

unbundle bit_operations_syntax

section \<open>noRSI: the safety tracker (safety-tracker.c)\<close>

text \<open>
  A C \<^verbatim>\<open>int\<close> is a 32-bit two's complement value: \<open>+\<close> wraps around (what the
  compiled program does where C leaves signed overflow undefined), and the source's
  comparisons \<^verbatim>\<open><\<close> and \<^verbatim>\<open>>\<close> are comparisons of the signed readings \<open>sint\<close>.
\<close>

type_synonym c_int = "32 word"

text \<open>\<^verbatim>\<open>struct tracking_period_config\<close> and \<^verbatim>\<open>struct tracking_period\<close>.\<close>

record tracking_period_config =
  name :: string
  limit_seconds :: c_int
  reset_seconds :: c_int
  break_seconds :: c_int

record tracking_period =
  config :: tracking_period_config
  active_seconds :: c_int

text \<open>The static table \<^verbatim>\<open>periods[]\<close> with its initial values.\<close>

definition periods :: "tracking_period list" where
  "periods =
    [ \<lparr> config = \<lparr> name = ''micro'', limit_seconds = 3 * 60,
                   reset_seconds = 15, break_seconds = 30 \<rparr>,
        active_seconds = 0 \<rparr>,
      \<lparr> config = \<lparr> name = ''normal'', limit_seconds = 45 * 60,
                   reset_seconds = 0, break_seconds = 10 * 60 \<rparr>,
        active_seconds = 0 \<rparr>,
      \<lparr> config = \<lparr> name = ''workday'', limit_seconds = 4 * 60 * 60,
                   reset_seconds = 0, break_seconds = 8 * 60 * 60 \<rparr>,
        active_seconds = 0 \<rparr> ]"

text \<open>
  The body of the loop of \<^verbatim>\<open>tracker_provide_idle_seconds\<close> for one entry of the
  table: the outer test \<^verbatim>\<open>active_seconds > 0\<close>, then the early reset, else the break
  reset.
\<close>

definition idle_period :: "c_int \<Rightarrow> tracking_period \<Rightarrow> tracking_period" where
  "idle_period idle_seconds period =
    (if 0 < sint (active_seconds period) then
       (if sint (active_seconds period) < sint (limit_seconds (config period)) \<and>
           0 < sint (reset_seconds (config period)) \<and>
           sint (reset_seconds (config period)) < sint idle_seconds
        then period \<lparr> active_seconds := 0 \<rparr>
        else if sint (break_seconds (config period)) < sint idle_seconds
        then period \<lparr> active_seconds := 0 \<rparr>
        else period)
     else period)"

text \<open>\<^verbatim>\<open>tracker_provide_idle_seconds\<close>: the loop visits every entry once, in order.\<close>

definition tracker_provide_idle_seconds ::
    "c_int \<Rightarrow> tracking_period list \<Rightarrow> tracking_period list" where
  "tracker_provide_idle_seconds idle_seconds ps = map (idle_period idle_seconds) ps"

text \<open>The body of the loop of \<^verbatim>\<open>tracker_provide_active_seconds\<close>: \<^verbatim>\<open>+=\<close>.\<close>

definition active_period :: "c_int \<Rightarrow> tracking_period \<Rightarrow> tracking_period" where
  "active_period n period = period \<lparr> active_seconds := active_seconds period + n \<rparr>"

definition tracker_provide_active_seconds ::
    "c_int \<Rightarrow> tracking_period list \<Rightarrow> tracking_period list" where
  "tracker_provide_active_seconds n ps = map (active_period n) ps"

text \<open>
  A run of calls, keeping every state on the way: the head is the starting table, and
  each later entry is the table after the next call.
\<close>

fun idle_trace :: "tracking_period list \<Rightarrow> c_int list \<Rightarrow> tracking_period list list" where
  "idle_trace ps [] = [ps]"
| "idle_trace ps (s # ss) = ps # idle_trace (tracker_provide_idle_seconds s ps) ss"

fun active_trace :: "tracking_period list \<Rightarrow> c_int list \<Rightarrow> tracking_period list list" where
  "active_trace ps [] = [ps]"
| "active_trace ps (n # ns) = ps # active_trace (tracker_provide_active_seconds n ps) ns"

text \<open>The micro window of the table, with a given accumulator.\<close>

definition micro_with :: "c_int \<Rightarrow> tracking_period" where
  "micro_with a = (periods ! 0) \<lparr> active_seconds := a \<rparr>"


subsection \<open>The status line\<close>

text \<open>
  \<^verbatim>\<open>sprintf(readout, "%i", v)\<close>: the decimal digits of \<open>v\<close>, most significant first,
  after a minus sign when \<open>v\<close> is negative.
\<close>

definition digit_char :: "nat \<Rightarrow> char" where
  "digit_char d = ''0123456789'' ! (d mod 10)"

function string_of_nat :: "nat \<Rightarrow> string" where
  "string_of_nat n =
    (if n < 10 then [digit_char n] else string_of_nat (n div 10) @ [digit_char (n mod 10)])"
  by pat_completeness auto
termination
  by (relation "measure id") auto

definition sprintf_i :: "int \<Rightarrow> string" where
  "sprintf_i v = (if v < 0 then CHR ''-'' # string_of_nat (nat (- v)) else string_of_nat (nat v))"

definition newline :: char where
  "newline = CHR 0x0A"

text \<open>
  The loop of \<^verbatim>\<open>tracker_get_status_json\<close>: every \<^verbatim>\<open>strcat\<close> appends to the string
  held in \<^verbatim>\<open>buff\<close>, and every entry ends with a comma.
\<close>

fun status_loop :: "tracking_period list \<Rightarrow> string \<Rightarrow> string" where
  \<open>status_loop [] buff = buff\<close>
| \<open>status_loop (period # rest) buff =
    status_loop rest
      (buff @ ''{"name":"'' @ name (config period) @ ''","safe":'' @
       (if sint (limit_seconds (config period)) < sint (active_seconds period)
        then ''false'' else ''true'') @
       '',"accumulated_seconds":'' @ sprintf_i (sint (active_seconds period)) @
       '',"break_at":'' @ sprintf_i (sint (limit_seconds (config period))) @
       ''},'')\<close>

text \<open>
  \<^verbatim>\<open>tracker_get_status_json\<close>: the string left in the 512-byte buffer. The last
  character written by the loop is overwritten with the terminator (\<open>butlast\<close>) before
  the closing brackets and the newline are appended.
\<close>

definition tracker_get_status_json :: "tracking_period list \<Rightarrow> string" where
  \<open>tracker_get_status_json ps =
    butlast (status_loop ps ''{"periods":['') @ '']}'' @ [newline]\<close>

text \<open>
  The wire format as the specification words it: one object per window, in the order of
  the table, separated by commas, inside \<^verbatim>\<open>{"periods":[ ... ]}\<close> and a newline.
\<close>

definition spec_entry :: "string \<Rightarrow> bool \<Rightarrow> int \<Rightarrow> int \<Rightarrow> string" where
  \<open>spec_entry nm safe accumulated break_at =
    ''{"name":"'' @ nm @ ''","safe":'' @ (if safe then ''true'' else ''false'') @
    '',"accumulated_seconds":'' @ sprintf_i accumulated @
    '',"break_at":'' @ sprintf_i break_at @ ''}''\<close>

definition spec_period_entry :: "tracking_period \<Rightarrow> string" where
  "spec_period_entry p =
    spec_entry (name (config p))
      (sint (active_seconds p) \<le> sint (limit_seconds (config p)))
      (sint (active_seconds p)) (sint (limit_seconds (config p)))"

fun comma_separated :: "string list \<Rightarrow> string" where
  "comma_separated [] = []"
| "comma_separated [e] = e"
| "comma_separated (e # es) = e @ '','' @ comma_separated es"

definition spec_status_line :: "tracking_period list \<Rightarrow> string" where
  \<open>spec_status_line ps =
    ''{"periods":['' @ comma_separated (map spec_period_entry ps) @ '']}'' @ [newline]\<close>

text \<open>
  The tables the running program can hold: the configuration is fixed, only the
  accumulators change.
\<close>

definition configured :: "tracking_period list \<Rightarrow> bool" where
  "configured ps = (map config ps = map config periods)"


section \<open>The query handler (query-handler.c)\<close>

definition QUERY_HANDLER_MAX_CLIENTS :: nat where
  "QUERY_HANDLER_MAX_CLIENTS = 16"

definition QUERY_HANDLER_MAX_CLIENT_BUFFER :: nat where
  "QUERY_HANDLER_MAX_CLIENT_BUFFER = 1024"

text \<open>
  \<^verbatim>\<open>struct client_state\<close>. The arrays \<^verbatim>\<open>in\<close> and \<^verbatim>\<open>out\<close> are lists of
  \<open>QUERY_HANDLER_MAX_CLIENT_BUFFER\<close> bytes (\<open>in_buf\<close>, \<open>out_buf\<close>: \<open>in\<close> is a keyword
  here). The lengths are C ints that the code only ever sets to a byte count, to -1, or
  to a difference of two of them: no computation on them comes near the overflow, so
  they are integers.
\<close>

record client_state =
  in_buf :: "char list"
  in_len :: int
  in_ready :: int
  out_buf :: "char list"
  out_len :: int

text \<open>\<^verbatim>\<open>struct pollfd\<close>, with the two event bits the code uses.\<close>

record pollfd =
  fd :: int
  events :: "16 word"
  revents :: "16 word"

definition POLLIN :: "16 word" where
  "POLLIN = 1"

definition POLLOUT :: "16 word" where
  "POLLOUT = 4"

text \<open>
  Slot \<open>i\<close> of the server is the pair of \<^verbatim>\<open>conn_poll_fds[i]\<close> and
  \<^verbatim>\<open>client_state[i]\<close>; the two arrays have \<open>QUERY_HANDLER_MAX_CLIENTS\<close> entries.
\<close>

type_synonym slot = "pollfd \<times> client_state"

text \<open>What \<^verbatim>\<open>memset(&(client_state[i]), 0, sizeof(struct client_state))\<close> leaves.\<close>

definition zeroed_client :: client_state where
  "zeroed_client =
    \<lparr> in_buf = replicate QUERY_HANDLER_MAX_CLIENT_BUFFER (CHR 0x00), in_len = 0,
      in_ready = 0,
      out_buf = replicate QUERY_HANDLER_MAX_CLIENT_BUFFER (CHR 0x00), out_len = 0 \<rparr>"

text \<open>\<^verbatim>\<open>query_handler_current_client_count\<close>: the slots with \<^verbatim>\<open>fd >= 0\<close>.\<close>

definition query_handler_current_client_count :: "slot list \<Rightarrow> int" where
  "query_handler_current_client_count slots =
    int (length (filter (\<lambda>s. 0 \<le> fd (fst s)) slots))"

text \<open>
  \<^verbatim>\<open>query_handler_store_connection\<close>: the first slot with \<^verbatim>\<open>fd == -1\<close> takes the
  connection, and the loop stops there; with no such slot nothing is stored.
\<close>

fun query_handler_store_connection :: "int \<Rightarrow> slot list \<Rightarrow> slot list" where
  "query_handler_store_connection new_fd [] = []"
| "query_handler_store_connection new_fd (s # rest) =
    (if fd (fst s) = - 1
     then (fst s \<lparr> fd := new_fd, events := POLLIN, revents := 0 \<rparr>, zeroed_client) # rest
     else s # query_handler_store_connection new_fd rest)"

text \<open>
  The loop shared by \<^verbatim>\<open>query_handler_message_ready\<close> and
  \<^verbatim>\<open>query_handler_handle_message\<close>: the index of the first newline among the bytes
  it is given, which are the first \<^verbatim>\<open>in_len\<close> bytes of the input buffer.
\<close>

fun newline_index :: "char list \<Rightarrow> nat option" where
  "newline_index [] = None"
| "newline_index (c # cs) =
    (if c = newline then Some 0 else map_option Suc (newline_index cs))"

definition filled_input :: "client_state \<Rightarrow> char list" where
  "filled_input cs = take (nat (in_len cs)) (in_buf cs)"

definition query_handler_message_ready :: "client_state \<Rightarrow> bool" where
  "query_handler_message_ready cs = (newline_index (filled_input cs) \<noteq> None)"

text \<open>
  A C string is read up to its first NUL byte: \<^verbatim>\<open>strcmp(parse_buff, "status") == 0\<close>
  compares \<open>c_string parse_buff\<close> with the literal.
\<close>

definition c_string :: "char list \<Rightarrow> string" where
  "c_string bytes = takeWhile (\<lambda>c. c \<noteq> CHR 0x00) bytes"

text \<open>
  \<^verbatim>\<open>parse_buff\<close> after the \<^verbatim>\<open>memset\<close>, the \<^verbatim>\<open>memcpy\<close> of \<^verbatim>\<open>msg_len\<close> bytes and the
  terminator written at \<^verbatim>\<open>parse_buff[msg_len]\<close>.
\<close>

definition parse_buff_of :: "char list \<Rightarrow> nat \<Rightarrow> char list" where
  "parse_buff_of buff msg_len =
    (take msg_len buff @ replicate (QUERY_HANDLER_MAX_CLIENT_BUFFER - msg_len) (CHR 0x00))
      [msg_len := CHR 0x00]"

text \<open>
  \<^verbatim>\<open>memcpy(dst, src, n)\<close> and \<^verbatim>\<open>memmove\<close> into the start of a buffer: the first \<open>n\<close>
  bytes are replaced, the others stay.
\<close>

definition copy_to_front :: "char list \<Rightarrow> char list \<Rightarrow> char list" where
  "copy_to_front src dst = src @ drop (length src) dst"

text \<open>
  \<^verbatim>\<open>query_handler_handle_message\<close>. \<^verbatim>\<open>msg_len\<close> stays 0 when the loop finds no
  newline. The status response is copied to the start of \<^verbatim>\<open>out\<close> and \<^verbatim>\<open>out_len\<close> is
  set to its length; \<^verbatim>\<open>info\<close> and unknown requests only print a log line. Then the
  \<^verbatim>\<open>memmove\<close> of \<^verbatim>\<open>in_len - (msg_len + 1)\<close> bytes from \<^verbatim>\<open>in[msg_len + 1]\<close>.
  The only caller runs it on a connection with a message ready, where the count of the
  \<^verbatim>\<open>memmove\<close> is not negative; every statement below is about that case.
\<close>

definition query_handler_handle_message ::
    "tracking_period list \<Rightarrow> client_state \<Rightarrow> client_state" where
  "query_handler_handle_message ps cs =
    (let msg_len = (case newline_index (filled_input cs) of Some i \<Rightarrow> i | None \<Rightarrow> 0);
         request = c_string (parse_buff_of (in_buf cs) msg_len);
         cs1 = (if request = ''status''
                then (let status = tracker_get_status_json ps
                      in cs \<lparr> out_buf := copy_to_front status (out_buf cs),
                              out_len := int (length status) \<rparr>)
                else if request = ''info'' then cs
                else cs);
         remaining = in_len cs - (int msg_len + 1)
     in cs1 \<lparr> in_buf := copy_to_front
                           (take (nat remaining) (drop (msg_len + 1) (in_buf cs)))
                           (in_buf cs),
              in_len := remaining \<rparr>)"


text \<open>
  The loop \<^verbatim>\<open>while (query_handler_message_ready(i)) query_handler_handle_message(i)\<close>
  of \<^verbatim>\<open>query_handler_run\<close>. Each round removes a message and its newline from the
  filled part of the input buffer, so the loop ends.
\<close>

lemma newline_index_less: "newline_index bytes = Some i \<Longrightarrow> i < length bytes"
  by (induction bytes arbitrary: i) (auto split: if_splits)

lemma handle_message_in_len:
  "in_len (query_handler_handle_message ps cs) =
     in_len cs - (int (case newline_index (filled_input cs) of Some i \<Rightarrow> i | None \<Rightarrow> 0) + 1)"
  by (simp add: query_handler_handle_message_def Let_def)

lemma handle_message_decreases:
  assumes "query_handler_message_ready cs"
  shows "0 < in_len cs \<and> in_len (query_handler_handle_message ps cs) < in_len cs"
proof -
  from assms obtain i where i: "newline_index (filled_input cs) = Some i"
    by (auto simp: query_handler_message_ready_def)
  then have "i < length (filled_input cs)"
    by (rule newline_index_less)
  then have "i < nat (in_len cs)"
    by (simp add: filled_input_def)
  with i show ?thesis
    by (auto simp: handle_message_in_len)
qed

function handle_ready_messages :: "tracking_period list \<Rightarrow> client_state \<Rightarrow> client_state" where
  "handle_ready_messages ps cs =
    (if query_handler_message_ready cs
     then handle_ready_messages ps (query_handler_handle_message ps cs)
     else cs)"
  by pat_completeness auto
termination
  by (relation "measure (\<lambda>(ps, cs). nat (in_len cs))")
     (simp_all add: handle_message_decreases)

text \<open>
  What one \<^verbatim>\<open>read(pfd->fd, read_to, max_read)\<close> can do: fail with -1, or take up to
  \<^verbatim>\<open>max_read\<close> of the bytes the socket has (none at end of file), store them from
  \<^verbatim>\<open>read_to = &in[in_len]\<close> on and return their number.
\<close>

datatype read_result = Read_error | Read_available "char list"

text \<open>
  The block \<^verbatim>\<open>/* receive incoming data */\<close>. \<^verbatim>\<open>cs->in_len = read_count\<close> comes
  first, whatever \<^verbatim>\<open>read\<close> returned. The first component of the result tells whether
  the block ended in \<^verbatim>\<open>continue\<close>.
\<close>

definition receive_incoming :: "read_result \<Rightarrow> slot \<Rightarrow> bool \<times> slot" where
  "receive_incoming r s =
    (let pfd = fst s; cs = snd s;
         max_read = int QUERY_HANDLER_MAX_CLIENT_BUFFER - in_len cs
     in case r of
          Read_error \<Rightarrow> (True, pfd, cs \<lparr> in_len := - 1 \<rparr>)
        | Read_available bytes \<Rightarrow>
            (let got = take (nat max_read) bytes;
                 read_count = int (length got);
                 cs1 = cs \<lparr> in_buf := take (nat (in_len cs)) (in_buf cs) @ got @
                                        drop (nat (in_len cs) + length got) (in_buf cs),
                           in_len := read_count \<rparr>
             in if read_count = 0
                then (False, pfd \<lparr> fd := - 1, revents := revents pfd AND NOT POLLIN \<rparr>, cs1)
                else (False, pfd \<lparr> revents := revents pfd AND NOT POLLIN \<rparr>,
                      if query_handler_message_ready cs1 then cs1 \<lparr> in_ready := 1 \<rparr>
                      else cs1)))"

text \<open>
  The block \<^verbatim>\<open>/* send outgoing data */\<close>, for the value \<^verbatim>\<open>write\<close> returned: -1, or
  the number of bytes sent, at most \<^verbatim>\<open>out_len\<close>. After a partial write the \<^verbatim>\<open>memcpy\<close>
  moves the unsent bytes, as they were before the copy, to the start of \<^verbatim>\<open>out\<close>.
\<close>

definition send_outgoing :: "int \<Rightarrow> slot \<Rightarrow> bool \<times> slot" where
  "send_outgoing write_count s =
    (let pfd = fst s; cs = snd s
     in if write_count = - 1 then (True, pfd, cs)
        else if write_count = out_len cs
        then (False, pfd \<lparr> events := events pfd AND NOT POLLOUT \<rparr>, cs \<lparr> out_len := 0 \<rparr>)
        else if write_count < out_len cs
        then (False, pfd,
              cs \<lparr> out_buf := copy_to_front
                                 (take (nat (out_len cs - write_count))
                                    (drop (nat write_count) (out_buf cs)))
                                 (out_buf cs),
                    out_len := out_len cs - write_count \<rparr>)
        else (False, pfd, cs))"

text \<open>The block \<^verbatim>\<open>/* handle any complete messages in, queueing responses */\<close>.\<close>

definition handle_complete_messages :: "tracking_period list \<Rightarrow> slot \<Rightarrow> slot" where
  "handle_complete_messages ps s =
    (let pfd = fst s; cs = snd s
     in if query_handler_message_ready cs
        then (let cs1 = handle_ready_messages ps cs
              in (if 0 < out_len cs1 then pfd \<lparr> events := events pfd OR POLLOUT \<rparr> else pfd,
                  cs1))
        else (pfd, cs))"

text \<open>
  The body of the loop over the clients in \<^verbatim>\<open>query_handler_run\<close>, for one slot, given
  what \<^verbatim>\<open>read\<close> and \<^verbatim>\<open>write\<close> do if they are called.
\<close>

definition query_handler_run_client ::
    "tracking_period list \<Rightarrow> read_result \<Rightarrow> int \<Rightarrow> slot \<Rightarrow> slot" where
  "query_handler_run_client ps r write_count s =
    (if revents (fst s) AND (POLLIN OR POLLOUT) = 0 then s
     else
       (let (skip1, s1) =
              (if revents (fst s) AND POLLIN \<noteq> 0 then receive_incoming r s else (False, s))
        in if skip1 then s1
           else
             (let (skip2, s2) =
                    (if revents (fst s1) AND POLLOUT \<noteq> 0 then send_outgoing write_count s1
                     else (False, s1))
              in if skip2 then s2 else handle_complete_messages ps s2)))"

text \<open>
  The first block of \<^verbatim>\<open>query_handler_run\<close>, \<^verbatim>\<open>/* Handle any new incoming
  connections */\<close>. The listening socket is seen through two values: \<open>pending\<close>, the
  number of connection attempts waiting in its backlog (\<^verbatim>\<open>poll\<close> returns 1 when there is
  one), and \<open>new_conn_fd\<close>, what \<^verbatim>\<open>accept\<close> returns if it is called; an \<^verbatim>\<open>accept\<close> that
  succeeds takes one attempt out of the backlog.
\<close>

definition accept_incoming :: "nat \<Rightarrow> int \<Rightarrow> slot list \<Rightarrow> nat \<times> slot list" where
  "accept_incoming pending new_conn_fd slots =
    (if 0 < pending then
       (if query_handler_current_client_count slots < int QUERY_HANDLER_MAX_CLIENTS then
          (if new_conn_fd \<noteq> - 1
           then (pending - 1, query_handler_store_connection new_conn_fd slots)
           else (pending, slots))
        else (pending, slots))
     else (pending, slots))"

text \<open>
  Closing a connection, as the read of zero bytes and \<^verbatim>\<open>query_handler_cleanup\<close> do it:
  \<^verbatim>\<open>pfd->fd = -1\<close>.
\<close>

definition close_slot :: "nat \<Rightarrow> slot list \<Rightarrow> slot list" where
  "close_slot i slots = slots [i := ((fst (slots ! i)) \<lparr> fd := - 1 \<rparr>, snd (slots ! i))]"

text \<open>The table after \<^verbatim>\<open>query_handler_init_server\<close>: every \<^verbatim>\<open>fd\<close> is -1.\<close>

definition initial_slots :: "slot list" where
  "initial_slots =
    replicate QUERY_HANDLER_MAX_CLIENTS (\<lparr> fd = - 1, events = 0, revents = 0 \<rparr>, zeroed_client)"

text \<open>
  The table invariant: \<open>QUERY_HANDLER_MAX_CLIENTS\<close> slots, each free (\<^verbatim>\<open>fd == -1\<close>) or
  holding a descriptor, which the system never makes negative.
\<close>

definition slots_ok :: "slot list \<Rightarrow> bool" where
  "slots_ok slots =
    (length slots = QUERY_HANDLER_MAX_CLIENTS \<and>
     list_all (\<lambda>s. fd (fst s) = - 1 \<or> 0 \<le> fd (fst s)) slots)"

text \<open>The buffer invariant of a connection.\<close>

definition buffers_ok :: "client_state \<Rightarrow> bool" where
  "buffers_ok cs =
    (length (in_buf cs) = QUERY_HANDLER_MAX_CLIENT_BUFFER \<and>
     length (out_buf cs) = QUERY_HANDLER_MAX_CLIENT_BUFFER \<and>
     0 \<le> in_len cs \<and> in_len cs \<le> int QUERY_HANDLER_MAX_CLIENT_BUFFER \<and>
     0 \<le> out_len cs \<and> out_len cs \<le> int QUERY_HANDLER_MAX_CLIENT_BUFFER)"


section \<open>Reference statements and sample states\<close>

text \<open>
  The reset rule as the specification words it: the early reset first, otherwise the
  break reset, otherwise no change.
\<close>

definition spec_idle_rule :: "c_int \<Rightarrow> tracking_period \<Rightarrow> tracking_period" where
  "spec_idle_rule idle_seconds p =
    (if 0 < sint (active_seconds p) \<and>
        sint (active_seconds p) < sint (limit_seconds (config p)) \<and>
        0 < sint (reset_seconds (config p)) \<and>
        sint (reset_seconds (config p)) < sint idle_seconds
     then p \<lparr> active_seconds := 0 \<rparr>
     else if sint (break_seconds (config p)) < sint idle_seconds
     then p \<lparr> active_seconds := 0 \<rparr>
     else p)"

text \<open>The table with given accumulators for micro, normal and workday.\<close>

definition table_with :: "c_int \<Rightarrow> c_int \<Rightarrow> c_int \<Rightarrow> tracking_period list" where
  "table_with a0 a1 a2 =
    [ (periods ! 0) \<lparr> active_seconds := a0 \<rparr>,
      (periods ! 1) \<lparr> active_seconds := a1 \<rparr>,
      (periods ! 2) \<lparr> active_seconds := a2 \<rparr> ]"

text \<open>A connection just stored under descriptor 5 that \<^verbatim>\<open>poll\<close> reports readable.\<close>

definition readable_slot :: slot where
  "readable_slot = (\<lparr> fd = 5, events = POLLIN, revents = POLLIN \<rparr>, zeroed_client)"

text \<open>The same connection after an earlier read has left the three bytes \<^verbatim>\<open>sta\<close>.\<close>

definition partial_request_slot :: slot where
  "partial_request_slot =
    (\<lparr> fd = 5, events = POLLIN, revents = POLLIN \<rparr>,
     zeroed_client \<lparr> in_buf := copy_to_front ''sta'' (in_buf zeroed_client), in_len := 3 \<rparr>)"

text \<open>A table whose sixteen slots all hold a connection (descriptors 4 to 19).\<close>

definition full_table :: "slot list" where
  "full_table =
    map (\<lambda>k. (\<lparr> fd = 4 + int k, events = POLLIN, revents = 0 \<rparr>, zeroed_client)) [0..<16]"

text \<open>Two inputs that one read can deliver, each holding two complete requests.\<close>

definition two_status_requests :: "char list" where
  "two_status_requests = ''status'' @ [newline] @ ''status'' @ [newline]"

definition status_info_requests :: "char list" where
  "status_info_requests = ''status'' @ [newline] @ ''info'' @ [newline]"

text \<open>
  A fresh connection after its first read has delivered \<open>bytes\<close> with a complete request
  among them, and a connection whose input was consumed and whose output buffer
  holds one status response from its start.
\<close>

definition received :: "char list \<Rightarrow> client_state" where
  "received bytes =
    zeroed_client \<lparr> in_buf := copy_to_front bytes (in_buf zeroed_client),
                    in_len := int (length bytes), in_ready := 1 \<rparr>"

definition answered :: "tracking_period list \<Rightarrow> client_state \<Rightarrow> client_state" where
  "answered ps cs =
    cs \<lparr> in_len := 0,
         out_buf := copy_to_front (tracker_get_status_json ps) (out_buf cs),
         out_len := int (length (tracker_get_status_json ps)) \<rparr>"

declare string_of_nat.simps [simp del]
declare handle_ready_messages.simps [simp del]


section \<open>The accumulators\<close>

subsection \<open>Signed readings\<close>

lemma sint_c_int_range: "- (2 ^ 31) \<le> sint (a :: c_int) \<and> sint a < 2 ^ 31"
  using sint_ge [of a] sint_lt [of a] by simp

lemma sint_add_no_overflow:
  fixes a n :: c_int
  assumes "- (2 ^ 31) \<le> sint a + sint n" "sint a + sint n < 2 ^ 31"
  shows "sint (a + n) = sint a + sint n"
  using assms by (simp add: sint_word_ariths signed_take_bit_int_eq_self)

lemma sint_zero_iff: "sint (w :: c_int) = 0 \<longleftrightarrow> w = 0"
  using signed_word_eqI [of w 0] by auto

subsection \<open>Idle seconds\<close>

lemma idle_period_spec:
  assumes "0 \<le> sint (active_seconds p)"
  shows "idle_period idle p = spec_idle_rule idle p"
proof (cases "active_seconds p = 0")
  case True
  then have "p \<lparr> active_seconds := 0 \<rparr> = p" by (cases p) simp
  with True show ?thesis by (simp add: idle_period_def spec_idle_rule_def)
next
  case False
  with assms have "0 < sint (active_seconds p)"
    by (simp add: sint_zero_iff order_less_le)
  then show ?thesis by (simp add: idle_period_def spec_idle_rule_def)
qed

text \<open>
  The outer test of the code keeps an accumulator that is not positive as it is, whatever
  the idle time: a negative one is never reset.
\<close>

lemma idle_period_not_positive: "sint (active_seconds p) \<le> 0 \<Longrightarrow> idle_period idle p = p"
  by (simp add: idle_period_def)

lemma micro_with_fields:
  "config (micro_with a) = \<lparr> name = ''micro'', limit_seconds = 180,
                             reset_seconds = 15, break_seconds = 30 \<rparr>"
  "active_seconds (micro_with a) = a"
  by (simp_all add: micro_with_def periods_def)

lemma micro_reset_priority:
  "tracker_provide_idle_seconds 16 [micro_with 50] = [micro_with 0]"
  "tracker_provide_idle_seconds 16 [micro_with 200] = [micro_with 200]"
  "tracker_provide_idle_seconds 31 [micro_with 200] = [micro_with 0]"
  by (simp_all add: tracker_provide_idle_seconds_def idle_period_def micro_with_def periods_def)

text \<open>
  C1. For a table whose accumulators are not negative (the data model's accumulator is
  non-negative), one call of \<open>tracker_provide_idle_seconds\<close> applies to every window, on
  its own, the rule of the specification: reset to 0 by the early reset when
  \<open>0 < active < limit\<close>, \<open>0 < reset\<close> and \<open>idle > reset\<close>; otherwise reset to 0 when
  \<open>idle > break\<close>; otherwise unchanged. For the micro window (reset 15, break 30, limit
  180): 50 active seconds and 16 idle seconds reset to 0, 200 and 16 stay at 200, 200 and
  31 reset to 0.
\<close>

theorem provide_idle_seconds_reset_rule:
  assumes "\<forall>p \<in> set ps. 0 \<le> sint (active_seconds p)"
  shows "tracker_provide_idle_seconds idle_seconds ps = map (spec_idle_rule idle_seconds) ps \<and>
         tracker_provide_idle_seconds 16 [micro_with 50] = [micro_with 0] \<and>
         tracker_provide_idle_seconds 16 [micro_with 200] = [micro_with 200] \<and>
         tracker_provide_idle_seconds 31 [micro_with 200] = [micro_with 0]"
proof -
  have "map (idle_period idle_seconds) ps = map (spec_idle_rule idle_seconds) ps"
    using assms by (simp add: idle_period_spec)
  then show ?thesis
    by (simp only: tracker_provide_idle_seconds_def [symmetric] micro_reset_priority simp_thms)
qed

theorem provide_idle_seconds_reset_rule_witness:
  "0 \<le> sint (active_seconds (micro_with 50)) \<and>
   0 \<le> sint (active_seconds (micro_with 200)) \<and>
   tracker_provide_idle_seconds 16 [micro_with 50, micro_with 200] =
     [spec_idle_rule 16 (micro_with 50), spec_idle_rule 16 (micro_with 200)] \<and>
   spec_idle_rule 16 (micro_with 50) = micro_with 0 \<and>
   spec_idle_rule 16 (micro_with 200) = micro_with 200"
  using provide_idle_seconds_reset_rule [of "[micro_with 50, micro_with 200]" 16]
  by (simp add: micro_with_fields spec_idle_rule_def)

lemma idle_period_step:
  "(active_seconds (idle_period s p) = active_seconds p \<or>
    active_seconds (idle_period s p) = 0) \<and>
   sint (active_seconds (idle_period s p)) \<le> sint (active_seconds p) \<and>
   config (idle_period s p) = config p"
  by (simp add: idle_period_def)

lemma idle_length: "length (tracker_provide_idle_seconds s ps) = length ps"
  by (simp add: tracker_provide_idle_seconds_def)

lemma idle_trace_head: "idle_trace ps ss ! 0 = ps"
  by (cases ss) simp_all

text \<open>
  C7. Along any sequence of calls of \<open>tracker_provide_idle_seconds\<close> (non-decreasing
  non-negative arguments included), after each call every window's accumulator is the
  value it had before the call or 0, and it is never greater than before: entry \<open>k\<close> of
  the trace is the table before call \<open>k\<close>, entry \<open>Suc k\<close> the table after it.
\<close>

theorem provide_idle_seconds_never_increases:
  "\<forall>k < length ss. \<forall>i < length ps.
     (active_seconds (idle_trace ps ss ! Suc k ! i) = active_seconds (idle_trace ps ss ! k ! i) \<or>
      active_seconds (idle_trace ps ss ! Suc k ! i) = 0) \<and>
     sint (active_seconds (idle_trace ps ss ! Suc k ! i)) \<le>
       sint (active_seconds (idle_trace ps ss ! k ! i))"
proof (induction ss arbitrary: ps)
  case Nil
  then show ?case by simp
next
  case (Cons s ss)
  show ?case
  proof (intro allI impI)
    fix k i
    assume k: "k < length (s # ss)" and i: "i < length ps"
    show "(active_seconds (idle_trace ps (s # ss) ! Suc k ! i) =
             active_seconds (idle_trace ps (s # ss) ! k ! i) \<or>
           active_seconds (idle_trace ps (s # ss) ! Suc k ! i) = 0) \<and>
          sint (active_seconds (idle_trace ps (s # ss) ! Suc k ! i)) \<le>
            sint (active_seconds (idle_trace ps (s # ss) ! k ! i))"
    proof (cases k)
      case 0
      with i show ?thesis
        using idle_period_step [of s "ps ! i"]
        by (simp add: idle_trace_head tracker_provide_idle_seconds_def)
    next
      case (Suc j)
      with k have j: "j < length ss" by simp
      from i have i': "i < length (tracker_provide_idle_seconds s ps)"
        by (simp add: idle_length)
      from Cons.IH [rule_format, OF j i'] show ?thesis by (simp add: Suc)
    qed
  qed
qed

theorem provide_idle_seconds_never_increases_witness:
  "(1 :: nat) < length [5, 16, 31 :: c_int] \<and>
   (0 :: nat) < length (tracker_provide_active_seconds 50 periods) \<and>
   active_seconds (idle_trace (tracker_provide_active_seconds 50 periods) [5, 16, 31] ! 1 ! 0) = 50 \<and>
   active_seconds (idle_trace (tracker_provide_active_seconds 50 periods) [5, 16, 31] ! Suc 1 ! 0) = 0 \<and>
   sint (active_seconds (idle_trace (tracker_provide_active_seconds 50 periods) [5, 16, 31] ! Suc 1 ! 0))
     \<le> sint (active_seconds (idle_trace (tracker_provide_active_seconds 50 periods) [5, 16, 31] ! 1 ! 0))"
  using provide_idle_seconds_never_increases
    [rule_format, of 1 "[5, 16, 31]" 0 "tracker_provide_active_seconds 50 periods"]
  by (simp add: tracker_provide_active_seconds_def tracker_provide_idle_seconds_def
      active_period_def idle_period_def periods_def)


subsection \<open>Active seconds\<close>

lemma active_period_exact:
  assumes "0 < sint n" "sint (active_seconds p) + sint n < 2 ^ 31"
  shows "sint (active_seconds (active_period n p)) = sint (active_seconds p) + sint n"
proof -
  have "- (2 ^ 31) \<le> sint (active_seconds p)"
    using sint_c_int_range [of "active_seconds p"] by simp
  with assms have "- (2 ^ 31) \<le> sint (active_seconds p) + sint n" by linarith
  with assms show ?thesis
    by (simp add: active_period_def sint_add_no_overflow)
qed

lemma active_trace_head: "active_trace ps ns ! 0 = ps"
  by (cases ns) simp_all

lemma active_length: "length (tracker_provide_active_seconds n ps) = length ps"
  by (simp add: tracker_provide_active_seconds_def)

lemma provide_active_seconds_single:
  assumes "0 < sint n" "\<forall>p \<in> set ps. sint (active_seconds p) + sint n < 2 ^ 31"
  shows "map (\<lambda>p. sint (active_seconds p)) (tracker_provide_active_seconds n ps) =
         map (\<lambda>p. sint (active_seconds p) + sint n) ps"
  using assms by (simp add: tracker_provide_active_seconds_def active_period_exact)

text \<open>
  C3. Along any sequence of calls of \<open>tracker_provide_active_seconds\<close> with positive
  arguments, each call adds exactly its argument to every window's accumulator, so no
  accumulator ever decreases: entry \<open>k\<close> of the trace is the table before call \<open>k\<close>,
  entry \<open>Suc k\<close> the table after it (a single call is the sequence of length one). The
  sums are within the range of a C int, outside of which the C addition is undefined.
\<close>

theorem provide_active_seconds_adds:
  assumes "\<forall>n \<in> set ns. 0 < sint n"
    and "\<forall>p \<in> set ps. sint (active_seconds p) + sum_list (map sint ns) < 2 ^ 31"
  shows "\<forall>k < length ns. \<forall>i < length ps.
     sint (active_seconds (active_trace ps ns ! Suc k ! i)) =
       sint (active_seconds (active_trace ps ns ! k ! i)) + sint (ns ! k) \<and>
     sint (active_seconds (active_trace ps ns ! k ! i)) <
       sint (active_seconds (active_trace ps ns ! Suc k ! i))"
  using assms
proof (induction ns arbitrary: ps)
  case Nil
  then show ?case by simp
next
  case (Cons n ns)
  have n: "0 < sint n" using Cons.prems(1) by simp
  have rest: "0 \<le> sum_list (map sint ns)"
    using Cons.prems(1) by (intro sum_list_nonneg) auto
  have step: "sint (active_seconds (active_period n p)) = sint (active_seconds p) + sint n"
    if "p \<in> set ps" for p
  proof -
    from that Cons.prems(2)
    have "sint (active_seconds p) + (sint n + sum_list (map sint ns)) < 2 ^ 31"
      by simp
    with rest have "sint (active_seconds p) + sint n < 2 ^ 31" by linarith
    with n show ?thesis by (rule active_period_exact)
  qed
  let ?ps' = "tracker_provide_active_seconds n ps"
  have fits': "\<forall>p \<in> set ?ps'. sint (active_seconds p) + sum_list (map sint ns) < 2 ^ 31"
    using Cons.prems(2) step by (auto simp: tracker_provide_active_seconds_def add.assoc)
  have pos': "\<forall>m \<in> set ns. 0 < sint m" using Cons.prems(1) by simp
  note IH = Cons.IH [OF pos' fits']
  show ?case
  proof (intro allI impI)
    fix k i
    assume k: "k < length (n # ns)" and i: "i < length ps"
    show "sint (active_seconds (active_trace ps (n # ns) ! Suc k ! i)) =
            sint (active_seconds (active_trace ps (n # ns) ! k ! i)) + sint ((n # ns) ! k) \<and>
          sint (active_seconds (active_trace ps (n # ns) ! k ! i)) <
            sint (active_seconds (active_trace ps (n # ns) ! Suc k ! i))"
    proof (cases k)
      case 0
      from i have "ps ! i \<in> set ps" by simp
      from step [OF this] 0 i n show ?thesis
        by (simp add: active_trace_head tracker_provide_active_seconds_def)
    next
      case (Suc j)
      with k have j: "j < length ns" by simp
      from i have i': "i < length ?ps'" by (simp add: active_length)
      from IH [rule_format, OF j i'] show ?thesis by (simp add: Suc)
    qed
  qed
qed

theorem provide_active_seconds_adds_witness:
  "0 < sint (1 :: c_int) \<and> 0 < sint (200 :: c_int) \<and>
   sint (active_seconds (active_trace periods [1, 200] ! 1 ! 0)) = 1 \<and>
   sint (active_seconds (active_trace periods [1, 200] ! Suc 1 ! 0)) = 1 + sint (200 :: c_int) \<and>
   sint (active_seconds (active_trace periods [1, 200] ! 1 ! 0)) <
     sint (active_seconds (active_trace periods [1, 200] ! Suc 1 ! 0))"
  using provide_active_seconds_adds [rule_format, of "[1, 200]" periods 1 0]
  by (simp add: tracker_provide_active_seconds_def active_period_def periods_def)

subsection \<open>Negative arguments\<close>

lemma idle_period_negative:
  assumes "sint idle < 0" "0 \<le> sint (break_seconds (config p))"
  shows "idle_period idle p = p"
  using assms by (auto simp: idle_period_def)

lemma active_period_negative:
  assumes "sint n < 0" "- (2 ^ 31) \<le> sint (active_seconds p) + sint n"
  shows "sint (active_seconds (active_period n p)) = sint (active_seconds p) + sint n"
proof -
  have "sint (active_seconds p) < 2 ^ 31"
    using sint_c_int_range [of "active_seconds p"] by simp
  with assms have "sint (active_seconds p) + sint n < 2 ^ 31" by linarith
  with assms show ?thesis
    by (simp add: active_period_def sint_add_no_overflow)
qed

text \<open>
  C10, as the claim states it, fails: \<open>tracker_provide_active_seconds\<close> has no check of
  its argument. After 10 active seconds, the argument -5 brings every accumulator from 10
  down to 5.
\<close>

theorem negative_active_seconds_counterexample:
  "sint (- 5 :: c_int) < 0 \<and>
   map active_seconds (tracker_provide_active_seconds 10 periods) = [10, 10, 10] \<and>
   map active_seconds
     (tracker_provide_active_seconds (- 5) (tracker_provide_active_seconds 10 periods)) = [5, 5, 5] \<and>
   tracker_provide_active_seconds (- 5) (tracker_provide_active_seconds 10 periods) \<noteq>
     tracker_provide_active_seconds 10 periods"
  by (simp add: tracker_provide_active_seconds_def active_period_def periods_def)

text \<open>
  C10, amended. For a negative argument, \<open>tracker_provide_idle_seconds\<close> leaves every
  window as it is (no window has a negative \<open>break_seconds\<close>, as in the configured table),
  and \<open>tracker_provide_active_seconds\<close> does not reject it: it adds the argument to every
  accumulator, which thereby decreases (the sums being within the range of a C int).
\<close>

theorem negative_seconds_behaviour:
  assumes "sint n < 0"
    and "\<forall>p \<in> set ps. 0 \<le> sint (break_seconds (config p))"
    and "\<forall>p \<in> set ps. - (2 ^ 31) \<le> sint (active_seconds p) + sint n"
  shows "tracker_provide_idle_seconds n ps = ps \<and>
         map (\<lambda>p. sint (active_seconds p)) (tracker_provide_active_seconds n ps) =
           map (\<lambda>p. sint (active_seconds p) + sint n) ps"
proof -
  have "map (idle_period n) ps = map (\<lambda>p. p) ps"
    using assms(1,2) by (intro map_cong refl idle_period_negative) auto
  moreover have "map (\<lambda>p. sint (active_seconds (active_period n p))) ps =
                 map (\<lambda>p. sint (active_seconds p) + sint n) ps"
    using assms(1,3) by (intro map_cong refl active_period_negative) auto
  ultimately show ?thesis
    by (simp add: tracker_provide_idle_seconds_def tracker_provide_active_seconds_def comp_def)
qed

theorem negative_seconds_behaviour_witness:
  "sint (- 5 :: c_int) < 0 \<and>
   tracker_provide_idle_seconds (- 5) (tracker_provide_active_seconds 10 periods) =
     tracker_provide_active_seconds 10 periods \<and>
   map (\<lambda>p. sint (active_seconds p))
     (tracker_provide_active_seconds (- 5) (tracker_provide_active_seconds 10 periods)) = [5, 5, 5]"
  using negative_seconds_behaviour [of "- 5" "tracker_provide_active_seconds 10 periods"]
  by (simp add: tracker_provide_active_seconds_def active_period_def periods_def)


section \<open>The status line\<close>

subsection \<open>Decimal digits\<close>

lemma string_of_nat_small: "n < 10 \<Longrightarrow> string_of_nat n = [digit_char n]"
  by (simp add: string_of_nat.simps)

lemma string_of_nat_big:
  "10 \<le> n \<Longrightarrow> string_of_nat n = string_of_nat (n div 10) @ [digit_char (n mod 10)]"
  by (subst string_of_nat.simps) simp

lemma digit_char_in: "digit_char d \<in> set ''0123456789''"
proof -
  have "d mod 10 < length ''0123456789''" by simp
  then show ?thesis unfolding digit_char_def by (rule nth_mem)
qed

lemma digit_char_not_newline: "digit_char d \<noteq> newline"
  using digit_char_in [of d] by (auto simp: newline_def)

lemma string_of_nat_no_newline: "newline \<notin> set (string_of_nat n)"
proof (induction n rule: string_of_nat.induct)
  case (1 n)
  show ?case
  proof (cases "n < 10")
    case True
    then show ?thesis
      using digit_char_not_newline [of n] by (simp add: string_of_nat_small)
  next
    case False
    with 1 have "newline \<notin> set (string_of_nat (n div 10))" by simp
    with False show ?thesis
      using digit_char_not_newline [of "n mod 10"] by (simp add: string_of_nat_big)
  qed
qed

lemma sprintf_i_no_newline: "newline \<notin> set (sprintf_i v)"
  by (simp add: sprintf_i_def string_of_nat_no_newline) (simp add: newline_def)

lemma string_of_nat_length: "n < 10 ^ Suc k \<Longrightarrow> length (string_of_nat n) \<le> Suc k"
proof (induction k arbitrary: n)
  case 0
  then show ?case by (simp add: string_of_nat_small)
next
  case (Suc k)
  show ?case
  proof (cases "n < 10")
    case True
    then show ?thesis by (simp add: string_of_nat_small)
  next
    case False
    from Suc.prems have "n div 10 < 10 ^ Suc k"
      by (simp add: less_mult_imp_div_less mult.commute)
    then have "length (string_of_nat (n div 10)) \<le> Suc k" by (rule Suc.IH)
    with False show ?thesis by (simp add: string_of_nat_big)
  qed
qed

text \<open>A C int printed with \<^verbatim>\<open>%i\<close> takes at most 11 characters: \<^verbatim>\<open>readout[16]\<close> holds it.\<close>

lemma sprintf_i_length:
  fixes w :: c_int
  shows "length (sprintf_i (sint w)) \<le> 11"
proof -
  have r: "- (2 ^ 31) \<le> sint w" "sint w < 2 ^ 31"
    using sint_c_int_range [of w] by simp_all
  show ?thesis
  proof (cases "sint w < 0")
    case True
    with r have "nat (- sint w) < 10 ^ Suc 9" by simp
    then have "length (string_of_nat (nat (- sint w))) \<le> Suc 9"
      by (rule string_of_nat_length)
    with True show ?thesis by (simp add: sprintf_i_def)
  next
    case False
    with r have "nat (sint w) < 10 ^ Suc 9" by simp
    then have "length (string_of_nat (nat (sint w))) \<le> Suc 9"
      by (rule string_of_nat_length)
    with False show ?thesis by (simp add: sprintf_i_def)
  qed
qed

subsection \<open>The loop against the wire format\<close>

lemma status_loop_append:
  "status_loop ps buff = buff @ concat (map (\<lambda>p. spec_period_entry p @ '','') ps)"
proof (induction ps arbitrary: buff)
  case Nil
  then show ?case by simp
next
  case (Cons p ps)
  show ?case
    by (simp add: Cons.IH spec_period_entry_def spec_entry_def not_less [symmetric])
qed

lemma butlast_entries:
  "es \<noteq> [] \<Longrightarrow> butlast (concat (map (\<lambda>e. e @ '','') es)) = comma_separated es"
proof (induction es rule: comma_separated.induct)
  case 1
  then show ?case by simp
next
  case (2 e)
  then show ?case by (simp add: butlast_append)
next
  case (3 e e' es)
  then show ?case by (simp add: butlast_append)
qed

lemma status_json_refines_spec:
  assumes "ps \<noteq> []"
  shows "tracker_get_status_json ps = spec_status_line ps"
proof -
  have "concat (map (\<lambda>p. spec_period_entry p @ '','') ps) =
        concat (map (\<lambda>e. e @ '','') (map spec_period_entry ps))"
    by (simp add: comp_def)
  moreover have "map spec_period_entry ps \<noteq> []" using assms by simp
  ultimately have "butlast (concat (map (\<lambda>p. spec_period_entry p @ '','') ps)) =
        comma_separated (map spec_period_entry ps)"
    using butlast_entries by metis
  moreover have "concat (map (\<lambda>p. spec_period_entry p @ '','') ps) \<noteq> []"
    using assms by (cases ps) simp_all
  ultimately show ?thesis
    by (simp add: tracker_get_status_json_def spec_status_line_def status_loop_append
        butlast_append)
qed

subsection \<open>The configured table\<close>

lemma configured_table_with: "configured (table_with a0 a1 a2)"
  by (simp add: configured_def table_with_def periods_def)

lemma configured_is_table_with:
  assumes "configured ps"
  shows "ps = table_with (active_seconds (ps ! 0)) (active_seconds (ps ! 1))
                (active_seconds (ps ! 2))"
proof -
  from assms have "length (map config ps) = length (map config periods)"
    by (simp only: configured_def)
  then have len: "length ps = 3"
    by (simp add: periods_def)
  then obtain p0 p1 p2 where ps: "ps = [p0, p1, p2]"
    by (auto simp: length_Suc_conv numeral_3_eq_3)
  with assms show ?thesis
    by (simp add: configured_def table_with_def periods_def)
qed

lemma configured_periods: "configured periods"
  by (simp add: configured_def)

lemma configured_idle: "configured ps \<Longrightarrow> configured (tracker_provide_idle_seconds s ps)"
  by (simp add: configured_def tracker_provide_idle_seconds_def comp_def idle_period_step)

lemma configured_active: "configured ps \<Longrightarrow> configured (tracker_provide_active_seconds n ps)"
  by (simp add: configured_def tracker_provide_active_seconds_def comp_def active_period_def)

lemma spec_entry_length:
  fixes a l :: c_int
  shows "length (spec_entry nm safe (sint a) (sint l)) \<le> length nm + 81"
  using sprintf_i_length [of a] sprintf_i_length [of l]
  by (simp add: spec_entry_def)

lemma spec_entry_no_newline:
  "newline \<notin> set nm \<Longrightarrow> newline \<notin> set (spec_entry nm safe a l)"
  by (simp add: spec_entry_def sprintf_i_no_newline) (simp add: newline_def)

lemma spec_line_table:
  \<open>spec_status_line (table_with a0 a1 a2) =
     ''{"periods":['' @
       spec_entry ''micro'' (sint a0 \<le> 180) (sint a0) 180 @ '','' @
       spec_entry ''normal'' (sint a1 \<le> 2700) (sint a1) 2700 @ '','' @
       spec_entry ''workday'' (sint a2 \<le> 14400) (sint a2) 14400 @
     '']}'' @ [newline]\<close>
  by (simp add: spec_status_line_def table_with_def periods_def spec_period_entry_def)

lemma status_json_table:
  \<open>tracker_get_status_json (table_with a0 a1 a2) =
     ''{"periods":['' @
       spec_entry ''micro'' (sint a0 \<le> 180) (sint a0) 180 @ '','' @
       spec_entry ''normal'' (sint a1 \<le> 2700) (sint a1) 2700 @ '','' @
       spec_entry ''workday'' (sint a2 \<le> 14400) (sint a2) 14400 @
     '']}'' @ [newline]\<close>
proof -
  have "table_with a0 a1 a2 \<noteq> []" by (simp add: table_with_def)
  then have "tracker_get_status_json (table_with a0 a1 a2) =
             spec_status_line (table_with a0 a1 a2)"
    by (rule status_json_refines_spec)
  then show ?thesis by (simp only: spec_line_table)
qed

text \<open>The response fits the 512 bytes of \<^verbatim>\<open>buff\<close>, whatever the accumulators hold.\<close>

lemma status_json_length: "length (tracker_get_status_json (table_with a0 a1 a2)) < 512"
proof -
  have "length (spec_entry ''micro'' (sint a0 \<le> 180) (sint a0) (sint (180 :: c_int))) \<le> 5 + 81"
    using spec_entry_length [of "''micro''" _ a0 180] by simp
  moreover
  have "length (spec_entry ''normal'' (sint a1 \<le> 2700) (sint a1) (sint (2700 :: c_int))) \<le> 6 + 81"
    using spec_entry_length [of "''normal''" _ a1 2700] by simp
  moreover
  have "length (spec_entry ''workday'' (sint a2 \<le> 14400) (sint a2) (sint (14400 :: c_int))) \<le> 7 + 81"
    using spec_entry_length [of "''workday''" _ a2 14400] by simp
  ultimately show ?thesis by (simp add: status_json_table)
qed

lemma status_json_one_line:
  "last (tracker_get_status_json (table_with a0 a1 a2)) = newline \<and>
   newline \<notin> set (butlast (tracker_get_status_json (table_with a0 a1 a2)))"
proof -
  have "newline \<notin> set (spec_entry ''micro'' (sint a0 \<le> 180) (sint a0) 180)"
       "newline \<notin> set (spec_entry ''normal'' (sint a1 \<le> 2700) (sint a1) 2700)"
       "newline \<notin> set (spec_entry ''workday'' (sint a2 \<le> 14400) (sint a2) 14400)"
    by (rule spec_entry_no_newline, simp add: newline_def)+
  then show ?thesis
    by (simp add: status_json_table butlast_append) (simp add: newline_def)
qed

lemma provide_200: "tracker_provide_active_seconds 200 periods = table_with 200 200 200"
  by (simp add: tracker_provide_active_seconds_def active_period_def periods_def table_with_def)

lemma status_json_200:
  \<open>tracker_get_status_json (tracker_provide_active_seconds 200 periods) =
    ''{"periods":[{"name":"micro","safe":false,"accumulated_seconds":200,"break_at":180},'' @
    ''{"name":"normal","safe":true,"accumulated_seconds":200,"break_at":2700},'' @
    ''{"name":"workday","safe":true,"accumulated_seconds":200,"break_at":14400}]}'' @
    [newline]\<close>
  by (simp add: provide_200 status_json_table spec_entry_def sprintf_i_def string_of_nat_small
      string_of_nat_big digit_char_def)

text \<open>
  C2. Whatever the three accumulators \<open>a0\<close>, \<open>a1\<close>, \<open>a2\<close> of the configured table hold,
  \<open>tracker_get_status_json\<close> returns the wire format of the specification: inside
  \<^verbatim>\<open>{"periods":[ ... ]}\<close> one entry per window, in the order micro, normal, workday,
  each with \<^verbatim>\<open>accumulated_seconds\<close> the window's accumulator, \<^verbatim>\<open>break_at\<close> its limit
  and \<^verbatim>\<open>safe\<close> true exactly when the accumulator is at most the limit. The result
  ends with its only newline and fits the 512-byte buffer. After 200 active seconds
  micro reports \<^verbatim>\<open>safe\<close> false, normal and workday true, each with 200 accumulated
  seconds.
\<close>

theorem status_json_shape:
  \<open>tracker_get_status_json (table_with a0 a1 a2) =
     ''{"periods":['' @
       spec_entry ''micro'' (sint a0 \<le> 180) (sint a0) 180 @ '','' @
       spec_entry ''normal'' (sint a1 \<le> 2700) (sint a1) 2700 @ '','' @
       spec_entry ''workday'' (sint a2 \<le> 14400) (sint a2) 14400 @
     '']}'' @ [newline] \<and>
   tracker_get_status_json (table_with a0 a1 a2) = spec_status_line (table_with a0 a1 a2) \<and>
   last (tracker_get_status_json (table_with a0 a1 a2)) = newline \<and>
   newline \<notin> set (butlast (tracker_get_status_json (table_with a0 a1 a2))) \<and>
   length (tracker_get_status_json (table_with a0 a1 a2)) < 512 \<and>
   tracker_get_status_json (tracker_provide_active_seconds 200 periods) =
    ''{"periods":[{"name":"micro","safe":false,"accumulated_seconds":200,"break_at":180},'' @
    ''{"name":"normal","safe":true,"accumulated_seconds":200,"break_at":2700},'' @
    ''{"name":"workday","safe":true,"accumulated_seconds":200,"break_at":14400}]}'' @
    [newline]\<close>
proof -
  have "table_with a0 a1 a2 \<noteq> []" by (simp add: table_with_def)
  then have "tracker_get_status_json (table_with a0 a1 a2) =
             spec_status_line (table_with a0 a1 a2)"
    by (rule status_json_refines_spec)
  then show ?thesis
    using status_json_table [of a0 a1 a2] status_json_one_line [of a0 a1 a2]
      status_json_length [of a0 a1 a2] status_json_200
    by (simp only: simp_thms)
qed


section \<open>The query handler\<close>

subsection \<open>Framing\<close>

lemma newline_index_first:
  "newline \<notin> set msg \<Longrightarrow> newline_index (msg @ newline # rest) = Some (length msg)"
  by (induction msg) auto

lemma newline_index_None: "newline_index bytes = None \<longleftrightarrow> newline \<notin> set bytes"
  by (induction bytes) auto

lemma message_ready_iff:
  "query_handler_message_ready cs \<longleftrightarrow> newline \<in> set (filled_input cs)"
  by (simp add: query_handler_message_ready_def newline_index_None)

lemma copy_to_front_length:
  "length src \<le> length dst \<Longrightarrow> length (copy_to_front src dst) = length dst"
  by (simp add: copy_to_front_def)

lemma c_string_padded: "c_string (msg @ replicate n (CHR 0x00)) = c_string msg"
  by (induction msg) (auto simp: c_string_def)

lemma parse_buff_c_string:
  assumes "length msg < QUERY_HANDLER_MAX_CLIENT_BUFFER"
  shows "c_string (parse_buff_of (msg @ rest) (length msg)) = c_string msg"
proof -
  from assms obtain n where n: "QUERY_HANDLER_MAX_CLIENT_BUFFER - length msg = Suc n"
    by (cases "QUERY_HANDLER_MAX_CLIENT_BUFFER - length msg") auto
  have "parse_buff_of (msg @ rest) (length msg) = msg @ replicate (Suc n) (CHR 0x00)"
    by (simp add: parse_buff_of_def n list_update_append)
  then show ?thesis by (simp only: c_string_padded)
qed

text \<open>
  One call of \<open>query_handler_handle_message\<close> on a buffer that starts with a message,
  its newline and \<open>k\<close> more filled bytes.
\<close>

lemma handle_message_frame:
  assumes buf: "in_buf cs = msg @ newline # rest"
    and msg: "newline \<notin> set msg" "length msg < QUERY_HANDLER_MAX_CLIENT_BUFFER"
    and len: "in_len cs = int (length msg + 1 + k)" "k \<le> length rest"
  shows "query_handler_handle_message ps cs =
    (if c_string msg = ''status''
     then cs \<lparr> out_buf := copy_to_front (tracker_get_status_json ps) (out_buf cs),
               out_len := int (length (tracker_get_status_json ps)) \<rparr>
     else cs)
    \<lparr> in_buf := take k rest @ drop k (in_buf cs), in_len := int k \<rparr>"
proof -
  have n: "nat (in_len cs) = length msg + 1 + k"
    by (simp only: len(1) nat_int)
  have filled: "filled_input cs = msg @ newline # take k rest"
    by (simp add: filled_input_def n buf)
  have idx: "newline_index (filled_input cs) = Some (length msg)"
    using msg(1) by (simp add: filled newline_index_first)
  have req: "c_string (parse_buff_of (in_buf cs) (length msg)) = c_string msg"
    using msg(2) by (simp only: buf parse_buff_c_string)
  have rem: "in_len cs - (int (length msg) + 1) = int k"
    using len(1) by simp
  have shifted: "take k (drop (Suc (length msg)) (in_buf cs)) = take k rest"
    by (simp add: buf)
  have room: "min (length (in_buf cs) - Suc (length msg)) k = k"
    using len(2) by (simp add: buf)
  show ?thesis
    by (simp add: query_handler_handle_message_def Let_def idx req rem shifted room
        copy_to_front_def)
qed

text \<open>
  C6. When the input buffer starts with a message of length L (no newline in it), its
  newline and K more filled bytes, so that \<open>in_len\<close> is L + 1 + K, then after
  \<open>query_handler_handle_message\<close> those K bytes are the first K bytes of the buffer and
  \<open>in_len\<close> is K; the buffer keeps its size.
\<close>

theorem handle_message_shifts_input:
  assumes "in_buf cs = msg @ newline # remainder @ beyond"
    and "newline \<notin> set msg"
    and "in_len cs = int (length msg + 1 + length remainder)"
  shows "in_len (query_handler_handle_message ps cs) = int (length remainder) \<and>
         take (length remainder) (in_buf (query_handler_handle_message ps cs)) = remainder \<and>
         length (in_buf (query_handler_handle_message ps cs)) = length (in_buf cs)"
proof -
  have n: "nat (in_len cs) = length msg + 1 + length remainder"
    by (simp only: assms(3) nat_int)
  have filled: "filled_input cs = msg @ newline # remainder"
    by (simp add: filled_input_def n assms(1))
  have idx: "newline_index (filled_input cs) = Some (length msg)"
    using assms(2) by (simp add: filled newline_index_first)
  show ?thesis
    using assms(1,3)
    by (simp add: query_handler_handle_message_def Let_def idx copy_to_front_def)
qed

theorem handle_message_shifts_input_witness:
  "in_buf (received status_info_requests) =
     ''status'' @ newline # (''info'' @ [newline]) @ replicate 1012 (CHR 0x00) \<and>
   newline \<notin> set ''status'' \<and>
   in_len (received status_info_requests) = int (length ''status'' + 1 + length (''info'' @ [newline])) \<and>
   in_len (query_handler_handle_message periods (received status_info_requests)) = 5 \<and>
   take (length (''info'' @ [newline]))
     (in_buf (query_handler_handle_message periods (received status_info_requests))) =
     ''info'' @ [newline]"
  using handle_message_shifts_input [of "received status_info_requests" "''status''"
      "''info'' @ [newline]" "replicate 1012 (CHR 0x00)" periods]
  by (simp add: received_def status_info_requests_def copy_to_front_def zeroed_client_def
      QUERY_HANDLER_MAX_CLIENT_BUFFER_def newline_def)


subsection \<open>The loop over the ready messages\<close>

lemma handle_ready_none:
  "\<not> query_handler_message_ready cs \<Longrightarrow> handle_ready_messages ps cs = cs"
  by (simp add: handle_ready_messages.simps)

lemma handle_ready_step:
  "query_handler_message_ready cs \<Longrightarrow>
   handle_ready_messages ps cs = handle_ready_messages ps (query_handler_handle_message ps cs)"
  by (subst handle_ready_messages.simps) simp

text \<open>The loop returns only when no complete request is left in the input buffer.\<close>

lemma handle_ready_done: "\<not> query_handler_message_ready (handle_ready_messages ps cs)"
proof (induction ps cs rule: handle_ready_messages.induct)
  case (1 ps cs)
  then show ?case
    by (cases "query_handler_message_ready cs")
       (simp_all add: handle_ready_step handle_ready_none)
qed

lemma c_string_requests: "c_string ''status'' = ''status''" "c_string ''info'' = ''info''"
  by (simp_all add: c_string_def)

lemma status_json_not_empty: "0 < length (tracker_get_status_json ps)"
  by (simp add: tracker_get_status_json_def)

lemma receive_two_status:
  "receive_incoming (Read_available two_status_requests) readable_slot =
     (False, \<lparr> fd = 5, events = POLLIN, revents = 0 \<rparr>, received two_status_requests)"
  by (simp add: receive_incoming_def readable_slot_def zeroed_client_def Let_def received_def
      two_status_requests_def copy_to_front_def
      QUERY_HANDLER_MAX_CLIENT_BUFFER_def POLLIN_def message_ready_iff filled_input_def)

lemma received_two_status_ready: "query_handler_message_ready (received two_status_requests)"
  by (simp add: message_ready_iff filled_input_def received_def two_status_requests_def
      copy_to_front_def zeroed_client_def)

lemma handle_two_status:
  "handle_ready_messages ps (received two_status_requests) =
     answered ps (received two_status_requests)"
proof -
  let ?cs0 = "received two_status_requests"
  let ?rest = "''status'' @ newline # replicate 1010 (CHR 0x00)"
  let ?cs1 = "?cs0 \<lparr> out_buf := copy_to_front (tracker_get_status_json ps) (out_buf ?cs0),
                     out_len := int (length (tracker_get_status_json ps)),
                     in_buf := take 7 ?rest @ drop 7 (in_buf ?cs0), in_len := 7 \<rparr>"
  let ?cs2 = "?cs1 \<lparr> out_buf := copy_to_front (tracker_get_status_json ps) (out_buf ?cs1),
                     out_len := int (length (tracker_get_status_json ps)),
                     in_buf := take 0 ?rest @ drop 0 (in_buf ?cs1), in_len := 0 \<rparr>"
  have h0: "query_handler_handle_message ps ?cs0 = ?cs1"
    using handle_message_frame [of ?cs0 "''status''" ?rest 7 ps]
    by (simp add: newline_def c_string_requests QUERY_HANDLER_MAX_CLIENT_BUFFER_def
        received_def two_status_requests_def copy_to_front_def zeroed_client_def)
  have r1: "query_handler_message_ready ?cs1"
    by (simp add: message_ready_iff filled_input_def received_def two_status_requests_def
        copy_to_front_def zeroed_client_def)
  have h1: "query_handler_handle_message ps ?cs1 = ?cs2"
    using handle_message_frame [of ?cs1 "''status''" ?rest 0 ps]
    by (simp add: newline_def c_string_requests QUERY_HANDLER_MAX_CLIENT_BUFFER_def
        received_def two_status_requests_def copy_to_front_def zeroed_client_def)
  have r2: "\<not> query_handler_message_ready ?cs2"
    by (simp add: message_ready_iff filled_input_def)
  have e: "?cs2 = answered ps ?cs0"
    by (simp add: answered_def received_def two_status_requests_def copy_to_front_def
        zeroed_client_def)
  have "handle_ready_messages ps ?cs0 = handle_ready_messages ps ?cs1"
    using handle_ready_step [OF received_two_status_ready, of ps] by (simp only: h0)
  also have "\<dots> = handle_ready_messages ps ?cs2"
    using handle_ready_step [OF r1, of ps] by (simp only: h1)
  also have "\<dots> = ?cs2"
    using r2 by (rule handle_ready_none)
  finally show ?thesis by (simp only: e)
qed

lemma run_two_status:
  "query_handler_run_client ps (Read_available two_status_requests) 0 readable_slot =
   (\<lparr> fd = 5, events = POLLIN OR POLLOUT, revents = 0 \<rparr>,
    answered ps (received two_status_requests))"
proof -
  have rev: "revents (fst readable_slot) AND (POLLIN OR POLLOUT) \<noteq> 0"
            "revents (fst readable_slot) AND POLLIN \<noteq> 0"
    by (simp_all add: readable_slot_def POLLIN_def POLLOUT_def)
  have out: "0 < out_len (answered ps (received two_status_requests))"
    using status_json_not_empty [of ps] by (simp add: answered_def)
  have "handle_complete_messages ps
          (\<lparr> fd = 5, events = POLLIN, revents = 0 \<rparr>, received two_status_requests) =
        (\<lparr> fd = 5, events = POLLIN OR POLLOUT, revents = 0 \<rparr>,
         answered ps (received two_status_requests))"
    using out
    by (simp add: handle_complete_messages_def received_two_status_ready handle_two_status
        Let_def)
  then show ?thesis
    by (simp add: query_handler_run_client_def rev receive_two_status)
qed

text \<open>
  The input \<^verbatim>\<open>status\<close>, newline, \<^verbatim>\<open>info\<close>, newline: both requests are consumed, and the
  output buffer holds one status response and nothing for \<^verbatim>\<open>info\<close>.
\<close>

lemma handle_status_info:
  "in_len (handle_ready_messages ps (received status_info_requests)) = 0 \<and>
   out_len (handle_ready_messages ps (received status_info_requests)) =
     int (length (tracker_get_status_json ps)) \<and>
   take (length (tracker_get_status_json ps))
     (out_buf (handle_ready_messages ps (received status_info_requests))) =
     tracker_get_status_json ps"
proof -
  let ?cs0 = "received status_info_requests"
  let ?rest = "''info'' @ newline # replicate 1012 (CHR 0x00)"
  let ?cs1 = "?cs0 \<lparr> out_buf := copy_to_front (tracker_get_status_json ps) (out_buf ?cs0),
                     out_len := int (length (tracker_get_status_json ps)),
                     in_buf := take 5 ?rest @ drop 5 (in_buf ?cs0), in_len := 5 \<rparr>"
  let ?rest1 = "[CHR ''s'', newline] @ ''info'' @ newline # replicate 1012 (CHR 0x00)"
  let ?cs2 = "?cs1 \<lparr> in_buf := take 0 ?rest1 @ drop 0 (in_buf ?cs1), in_len := 0 \<rparr>"
  have r0: "query_handler_message_ready ?cs0"
    by (simp add: message_ready_iff filled_input_def received_def status_info_requests_def
        copy_to_front_def zeroed_client_def)
  have h0: "query_handler_handle_message ps ?cs0 = ?cs1"
    using handle_message_frame [of ?cs0 "''status''" ?rest 5 ps]
    by (simp add: newline_def c_string_requests QUERY_HANDLER_MAX_CLIENT_BUFFER_def
        received_def status_info_requests_def copy_to_front_def zeroed_client_def)
  have r1: "query_handler_message_ready ?cs1"
    by (simp add: message_ready_iff filled_input_def received_def status_info_requests_def
        copy_to_front_def zeroed_client_def)
  have h1: "query_handler_handle_message ps ?cs1 = ?cs2"
    using handle_message_frame [of ?cs1 "''info''" ?rest1 0 ps]
    by (simp add: newline_def c_string_requests QUERY_HANDLER_MAX_CLIENT_BUFFER_def
        received_def status_info_requests_def copy_to_front_def zeroed_client_def)
  have r2: "\<not> query_handler_message_ready ?cs2"
    by (simp add: message_ready_iff filled_input_def)
  have "handle_ready_messages ps ?cs0 = handle_ready_messages ps ?cs1"
    using handle_ready_step [OF r0, of ps] by (simp only: h0)
  also have "\<dots> = handle_ready_messages ps ?cs2"
    using handle_ready_step [OF r1, of ps] by (simp only: h1)
  also have "\<dots> = ?cs2"
    using r2 by (rule handle_ready_none)
  finally have "handle_ready_messages ps ?cs0 = ?cs2" .
  then show ?thesis
    by (simp add: copy_to_front_def)
qed

text \<open>
  C4, at the input of two status requests in one read. Both are consumed before the
  handler yields (\<open>in_len\<close> is 0), but the second response is copied over the first:
  the output buffer holds one response, where appending in request order would leave
  two.
\<close>

theorem two_status_requests_leave_one_response:
  "in_len (snd (query_handler_run_client periods (Read_available two_status_requests) 0
             readable_slot)) = 0 \<and>
   out_len (snd (query_handler_run_client periods (Read_available two_status_requests) 0
             readable_slot)) = int (length (tracker_get_status_json periods)) \<and>
   take (length (tracker_get_status_json periods))
     (out_buf (snd (query_handler_run_client periods (Read_available two_status_requests) 0
                 readable_slot))) = tracker_get_status_json periods \<and>
   out_len (snd (query_handler_run_client periods (Read_available two_status_requests) 0
             readable_slot)) \<noteq>
     int (length (tracker_get_status_json periods @ tracker_get_status_json periods))"
  using status_json_not_empty [of periods]
  by (simp add: run_two_status answered_def copy_to_front_def)


subsection \<open>Reading\<close>

text \<open>
  What the receive block does with the bytes of a read, on a connection within its
  bounds: they are stored behind the bytes already buffered, which stay in place, but
  \<open>in_len\<close> becomes the number of bytes of this read alone.
\<close>

lemma receive_available:
  assumes "buffers_ok cs"
  shows "in_len (snd (snd (receive_incoming (Read_available bytes) (pfd, cs)))) =
           int (min (length bytes) (QUERY_HANDLER_MAX_CLIENT_BUFFER - nat (in_len cs))) \<and>
         take (nat (in_len cs) +
               min (length bytes) (QUERY_HANDLER_MAX_CLIENT_BUFFER - nat (in_len cs)))
              (in_buf (snd (snd (receive_incoming (Read_available bytes) (pfd, cs))))) =
           take (nat (in_len cs)) (in_buf cs) @
           take (QUERY_HANDLER_MAX_CLIENT_BUFFER - nat (in_len cs)) bytes \<and>
         buffers_ok (snd (snd (receive_incoming (Read_available bytes) (pfd, cs))))"
proof -
  have m: "nat (int QUERY_HANDLER_MAX_CLIENT_BUFFER - in_len cs) =
           QUERY_HANDLER_MAX_CLIENT_BUFFER - nat (in_len cs)"
    using assms by (simp add: buffers_ok_def nat_diff_distrib')
  have l: "nat (in_len cs) \<le> QUERY_HANDLER_MAX_CLIENT_BUFFER"
    using assms by (simp add: buffers_ok_def nat_le_iff)
  show ?thesis
    using assms l
    by (auto simp: receive_incoming_def Let_def m buffers_ok_def min_def)
qed

text \<open>
  C5, at a connection that holds the three bytes \<^verbatim>\<open>sta\<close> when a read returns the four
  bytes \<^verbatim>\<open>tus\<close> and newline. The seven bytes of the request line are in the buffer, the
  old ones in front, but \<open>in_len\<close> is 4 and not 3 + 4: the filled part is \<^verbatim>\<open>stat\<close>, and no
  message is ready.
\<close>

theorem read_sets_in_len_to_read_count:
  "in_len (snd partial_request_slot) = 3 \<and>
   take 7 (in_buf (snd (snd (receive_incoming (Read_available (''tus'' @ [newline]))
                               partial_request_slot)))) = ''status'' @ [newline] \<and>
   in_len (snd (snd (receive_incoming (Read_available (''tus'' @ [newline]))
                       partial_request_slot))) = 4 \<and>
   filled_input (snd (snd (receive_incoming (Read_available (''tus'' @ [newline]))
                             partial_request_slot))) = ''stat'' \<and>
   \<not> query_handler_message_ready
        (snd (snd (receive_incoming (Read_available (''tus'' @ [newline]))
                     partial_request_slot)))"
  by (simp add: receive_incoming_def partial_request_slot_def zeroed_client_def Let_def
      copy_to_front_def QUERY_HANDLER_MAX_CLIENT_BUFFER_def message_ready_iff
      filled_input_def newline_def)

subsection \<open>The bounds of the buffers\<close>

lemma zeroed_client_ok: "buffers_ok zeroed_client"
  by (simp add: buffers_ok_def zeroed_client_def)

lemma send_outgoing_ok:
  assumes "buffers_ok cs" "- 1 \<le> write_count" "write_count \<le> out_len cs"
  shows "buffers_ok (snd (snd (send_outgoing write_count (pfd, cs))))"
  using assms
  by (auto simp: send_outgoing_def Let_def buffers_ok_def copy_to_front_def)

lemma configured_json_length:
  assumes "configured ps"
  shows "length (tracker_get_status_json ps) < 512"
  using status_json_length configured_is_table_with [OF assms] by metis

lemma handle_message_ok:
  assumes ok: "buffers_ok cs" and ready: "query_handler_message_ready cs"
    and conf: "configured ps"
  shows "buffers_ok (query_handler_handle_message ps cs)"
proof -
  from ready obtain i where i: "newline_index (filled_input cs) = Some i"
    by (auto simp: query_handler_message_ready_def)
  then have "i < length (filled_input cs)" by (rule newline_index_less)
  then have il: "int i < in_len cs" by (auto simp: filled_input_def)
  have j: "length (tracker_get_status_json ps) < 512"
    using conf by (rule configured_json_length)
  have inb: "length (copy_to_front
                 (take (nat (in_len cs - (int i + 1))) (drop (i + 1) (in_buf cs))) (in_buf cs)) =
             length (in_buf cs)"
    by (rule copy_to_front_length) simp
  have outb: "length (copy_to_front (tracker_get_status_json ps) (out_buf cs)) =
              length (out_buf cs)"
    using j ok
    by (intro copy_to_front_length)
       (simp add: buffers_ok_def QUERY_HANDLER_MAX_CLIENT_BUFFER_def)
  show ?thesis
    using ok il j inb outb
    by (simp add: query_handler_handle_message_def Let_def i buffers_ok_def
        QUERY_HANDLER_MAX_CLIENT_BUFFER_def)
qed

lemma handle_ready_ok:
  "buffers_ok cs \<Longrightarrow> configured ps \<Longrightarrow> buffers_ok (handle_ready_messages ps cs)"
proof (induction ps cs rule: handle_ready_messages.induct)
  case (1 ps cs)
  show ?case
  proof (cases "query_handler_message_ready cs")
    case True
    with 1 show ?thesis by (simp add: handle_ready_step handle_message_ok)
  next
    case False
    with 1 show ?thesis by (simp add: handle_ready_none)
  qed
qed

text \<open>
  C9, at a read that fails. The bounds hold for a fresh connection, for a read that
  returns bytes (\<open>receive_available\<close>), for a write (\<open>send_outgoing_ok\<close>) and for the
  handling of messages (\<open>handle_message_ok\<close>, \<open>handle_ready_ok\<close>). But when \<^verbatim>\<open>read\<close>
  returns -1 the receive block has already stored it in \<open>in_len\<close> before it tests for
  the error: \<open>in_len\<close> is -1 and the bounds are broken.
\<close>

theorem read_error_breaks_bounds:
  "buffers_ok (snd readable_slot) \<and>
   fst (receive_incoming Read_error readable_slot) \<and>
   in_len (snd (snd (receive_incoming Read_error readable_slot))) = - 1 \<and>
   \<not> buffers_ok (snd (snd (receive_incoming Read_error readable_slot))) \<and>
   \<not> buffers_ok (snd (query_handler_run_client periods Read_error 0 readable_slot))"
  by (simp add: receive_incoming_def readable_slot_def buffers_ok_def zeroed_client_def Let_def
      query_handler_run_client_def POLLIN_def POLLOUT_def)


subsection \<open>The connection table\<close>

lemma store_length: "length (query_handler_store_connection new_fd slots) = length slots"
  by (induction slots) auto

lemma count_le_length: "query_handler_current_client_count slots \<le> int (length slots)"
  by (simp add: query_handler_current_client_count_def)

lemma count_Nil: "query_handler_current_client_count [] = 0"
  by (simp add: query_handler_current_client_count_def)

lemma count_Cons:
  "query_handler_current_client_count (s # slots) =
     (if 0 \<le> fd (fst s) then 1 else 0) + query_handler_current_client_count slots"
  by (simp add: query_handler_current_client_count_def)

lemma store_count:
  assumes "\<exists>s \<in> set slots. fd (fst s) = - 1" "0 \<le> new_fd"
  shows "query_handler_current_client_count (query_handler_store_connection new_fd slots) =
         query_handler_current_client_count slots + 1"
  using assms by (induction slots) (auto simp: count_Cons)

lemma free_slot_exists:
  assumes "list_all (\<lambda>s. fd (fst s) = - 1 \<or> 0 \<le> fd (fst s)) slots"
    and "query_handler_current_client_count slots < int (length slots)"
  shows "\<exists>s \<in> set slots. fd (fst s) = - 1"
  using assms by (induction slots) (auto simp: count_Cons count_Nil split: if_splits)

lemma all_slots_taken:
  assumes "query_handler_current_client_count slots = int (length slots)" "i < length slots"
  shows "0 \<le> fd (fst (slots ! i))"
  using assms
proof (induction slots arbitrary: i)
  case Nil
  then show ?case by simp
next
  case (Cons s slots)
  have le: "query_handler_current_client_count slots \<le> int (length slots)"
    by (rule count_le_length)
  with Cons.prems(1) have s: "0 \<le> fd (fst s)"
    and rest: "query_handler_current_client_count slots = int (length slots)"
    by (auto simp: count_Cons split: if_splits)
  show ?case
  proof (cases i)
    case 0
    with s show ?thesis by simp
  next
    case (Suc j)
    with Cons.prems(2) have "j < length slots" by simp
    with rest have "0 \<le> fd (fst (slots ! j))" by (rule Cons.IH)
    with Suc show ?thesis by simp
  qed
qed

lemma store_all_ok:
  assumes "list_all (\<lambda>s. fd (fst s) = - 1 \<or> 0 \<le> fd (fst s)) slots" "0 \<le> new_fd"
  shows "list_all (\<lambda>s. fd (fst s) = - 1 \<or> 0 \<le> fd (fst s))
           (query_handler_store_connection new_fd slots)"
  using assms by (induction slots) auto

lemma initial_slots_ok:
  "slots_ok initial_slots \<and> query_handler_current_client_count initial_slots = 0"
  by (simp add: slots_ok_def initial_slots_def query_handler_current_client_count_def
      list_all_length)

lemma accept_full:
  "query_handler_current_client_count slots = int QUERY_HANDLER_MAX_CLIENTS \<Longrightarrow>
   accept_incoming pending new_conn_fd slots = (pending, slots)"
  by (simp add: accept_incoming_def)

lemma accept_only_below:
  "accept_incoming pending new_conn_fd slots \<noteq> (pending, slots) \<Longrightarrow>
   query_handler_current_client_count slots < int QUERY_HANDLER_MAX_CLIENTS"
  by (auto simp: accept_incoming_def split: if_splits)

lemma accept_count:
  assumes "slots_ok slots"
  shows "query_handler_current_client_count (snd (accept_incoming pending new_conn_fd slots))
         \<le> int QUERY_HANDLER_MAX_CLIENTS"
proof -
  have "length (snd (accept_incoming pending new_conn_fd slots)) = length slots"
    by (simp add: accept_incoming_def store_length)
  with assms show ?thesis
    using count_le_length [of "snd (accept_incoming pending new_conn_fd slots)"]
    by (simp add: slots_ok_def)
qed

lemma accept_room:
  assumes ok: "slots_ok slots"
    and room: "query_handler_current_client_count slots < int QUERY_HANDLER_MAX_CLIENTS"
    and pend: "0 < pending" and new: "0 \<le> new_conn_fd"
  shows "fst (accept_incoming pending new_conn_fd slots) = pending - 1 \<and>
         query_handler_current_client_count (snd (accept_incoming pending new_conn_fd slots)) =
           query_handler_current_client_count slots + 1 \<and>
         slots_ok (snd (accept_incoming pending new_conn_fd slots))"
proof -
  from ok room have "\<exists>s \<in> set slots. fd (fst s) = - 1"
    by (intro free_slot_exists) (simp_all add: slots_ok_def)
  then have c: "query_handler_current_client_count
                  (query_handler_store_connection new_conn_fd slots) =
                query_handler_current_client_count slots + 1"
    using new by (rule store_count)
  have a: "accept_incoming pending new_conn_fd slots =
        (pending - 1, query_handler_store_connection new_conn_fd slots)"
    using room pend new by (simp add: accept_incoming_def)
  show ?thesis
    using ok new by (simp add: a c slots_ok_def store_length store_all_ok)
qed

lemma close_count:
  assumes "i < length slots" "0 \<le> fd (fst (slots ! i))"
  shows "query_handler_current_client_count (close_slot i slots) =
         query_handler_current_client_count slots - 1"
  using assms
proof (induction slots arbitrary: i)
  case Nil
  then show ?case by simp
next
  case (Cons s slots)
  show ?case
  proof (cases i)
    case 0
    with Cons.prems show ?thesis by (simp add: close_slot_def count_Cons)
  next
    case (Suc j)
    with Cons.prems have "query_handler_current_client_count (close_slot j slots) =
         query_handler_current_client_count slots - 1"
      by (intro Cons.IH) simp_all
    with Suc show ?thesis by (simp add: close_slot_def count_Cons)
  qed
qed

lemma close_ok: "slots_ok slots \<Longrightarrow> slots_ok (close_slot i slots)"
  by (cases "i < length slots")
     (auto simp: slots_ok_def close_slot_def list_all_length nth_list_update)

text \<open>
  C8. On a table of 16 slots, each free or holding a descriptor: the stored
  connections never number more than 16; the accept block changes the table or the
  backlog only when fewer than 16 connections are stored; with 16 stored, the table and
  the number of pending attempts stay as they are, so that the further attempt is
  neither accepted nor refused; and once one of the 16 is closed, an attempt that is
  pending is accepted (\<^verbatim>\<open>accept\<close> returning a descriptor), which fills the table again.
\<close>

theorem accept_respects_capacity:
  assumes "slots_ok slots"
  shows "query_handler_current_client_count (snd (accept_incoming pending new_conn_fd slots))
           \<le> 16 \<and>
         (accept_incoming pending new_conn_fd slots \<noteq> (pending, slots) \<longrightarrow>
            query_handler_current_client_count slots < 16) \<and>
         (query_handler_current_client_count slots = 16 \<longrightarrow>
            accept_incoming pending new_conn_fd slots = (pending, slots)) \<and>
         (query_handler_current_client_count slots = 16 \<and> i < 16 \<and>
          0 < pending \<and> 0 \<le> new_conn_fd \<longrightarrow>
            fst (accept_incoming pending new_conn_fd (close_slot i slots)) = pending - 1 \<and>
            query_handler_current_client_count
              (snd (accept_incoming pending new_conn_fd (close_slot i slots))) = 16)"
proof -
  have len: "length slots = 16"
    using assms by (simp add: slots_ok_def QUERY_HANDLER_MAX_CLIENTS_def)
  have a: "query_handler_current_client_count (snd (accept_incoming pending new_conn_fd slots))
           \<le> 16"
    using accept_count [OF assms, of pending new_conn_fd]
    by (simp add: QUERY_HANDLER_MAX_CLIENTS_def)
  have b: "query_handler_current_client_count slots < 16"
    if "accept_incoming pending new_conn_fd slots \<noteq> (pending, slots)"
    using accept_only_below [OF that] by (simp add: QUERY_HANDLER_MAX_CLIENTS_def)
  have c: "accept_incoming pending new_conn_fd slots = (pending, slots)"
    if "query_handler_current_client_count slots = 16"
    using that by (intro accept_full) (simp add: QUERY_HANDLER_MAX_CLIENTS_def)
  have d: "fst (accept_incoming pending new_conn_fd (close_slot i slots)) = pending - 1 \<and>
           query_handler_current_client_count
             (snd (accept_incoming pending new_conn_fd (close_slot i slots))) = 16"
    if full: "query_handler_current_client_count slots = 16" and i: "i < 16"
      and pend: "0 < pending" and new: "0 \<le> new_conn_fd"
  proof -
    from full len i have taken: "0 \<le> fd (fst (slots ! i))"
      by (intro all_slots_taken) simp_all
    from i len have "i < length slots" by simp
    from close_count [OF this taken] full
    have fifteen: "query_handler_current_client_count (close_slot i slots) = 15" by simp
    then have room: "query_handler_current_client_count (close_slot i slots)
                     < int QUERY_HANDLER_MAX_CLIENTS"
      by (simp add: QUERY_HANDLER_MAX_CLIENTS_def)
    from accept_room [OF close_ok [OF assms] room pend new] fifteen
    show ?thesis by simp
  qed
  from a b c d show ?thesis by blast
qed

lemma full_table_facts:
  "slots_ok full_table" "query_handler_current_client_count full_table = 16"
  by (simp_all add: slots_ok_def full_table_def query_handler_current_client_count_def
      QUERY_HANDLER_MAX_CLIENTS_def list_all_iff)

theorem accept_respects_capacity_witness:
  "slots_ok full_table \<and>
   query_handler_current_client_count full_table = 16 \<and>
   accept_incoming 1 20 full_table = (1, full_table) \<and>
   fst (accept_incoming 1 20 (close_slot 3 full_table)) = 0 \<and>
   query_handler_current_client_count (snd (accept_incoming 1 20 (close_slot 3 full_table))) = 16"
  using accept_respects_capacity [of full_table 1 20 3]
  by (simp add: full_table_facts)

end
